theory Spec2Isabelle
  imports Complex_Main
begin

section \<open>The worker pool of cheroot/workers/threadpool.py\<close>

text \<open>
  The model follows the two classes of the module. A \<open>WorkerThread\<close> is a record of its
  attributes, a \<open>ThreadPool\<close> a record holding the list \<open>_threads\<close> and the contents of the
  shared queue. Times are rational seconds, counters are Python integers (\<open>int\<close>). What the
  collaborators do (connection handles, sockets, the server object, the clock) is read from
  an environment record, so every function of the model is a function of its arguments.
  The model covers the worker loop with its statistics and, of the pool, \<open>idle\<close>, \<open>grow\<close>
  and \<open>shrink\<close>; \<open>start\<close>, \<open>put\<close>, \<open>stop\<close> and \<open>qsize\<close> rest on the blocking calls of the
  thread and queue libraries and are left out.
\<close>

subsection \<open>Connection handles\<close>

text \<open>
  The attributes of a connection the module reads: its socket (the key under which a worker
  owns it) and the counters \<open>requests_seen\<close>, \<open>rfile.bytes_read\<close>, \<open>wfile.bytes_written\<close>.
\<close>

record counters =
  conn_requests_seen :: int
  rfile_bytes_read :: int
  wfile_bytes_written :: int

record connection =
  socket :: nat
  counts :: counters

text \<open>
  A call of \<open>conn.communicate()\<close> returns, raises an \<open>Exception\<close>, or raises
  \<open>KeyboardInterrupt\<close> or \<open>SystemExit\<close>, which \<open>except Exception\<close> does not catch and
  the handler of \<open>run\<close> does.
\<close>

datatype outcome = Returns | Raises | Interrupts

text \<open>The places of the worker's loop that read \<open>time.time()\<close>, by socket.\<close>

datatype reading = At_receive nat | At_start nat | At_return nat | At_close nat | At_sweep

text \<open>
  The calls a worker makes on its collaborators, in the order made: \<open>communicate\<close> and
  \<open>close\<close> on the connection of a socket, and the assignment to \<open>server.interrupt\<close>.
\<close>

datatype call = Communicate nat | Close nat | Record_interrupt

record env =
  stats_enabled :: bool
  srv_timeout :: rat
  fileno :: "nat \<Rightarrow> int"
  readable :: "nat \<Rightarrow> bool"
  communicate :: "connection \<Rightarrow> outcome \<times> counters"
  clock :: "reading \<Rightarrow> rat"

subsection \<open>Worker threads\<close>

text \<open>
  \<open>phase\<close> is the control location of the thread: started and not yet polling, in the loop
  of \<open>run\<close> outside the processing of a connection, between \<open>self.conn = conn\<close> and
  \<open>self.conn = None\<close> in \<open>process_conns\<close> (around the \<open>communicate\<close> call), or no longer
  running. \<open>calls\<close> is the log of the calls made on collaborators. The other fields are the
  attributes of \<open>WorkerThread\<close>; \<open>conn_socks\<close>, the local dictionary of \<open>run\<close>, is a list
  of entries in insertion order.
\<close>

datatype phase = Starting | Polling | In_process | Exited

record worker =
  wid :: nat
  phase :: phase
  ready :: bool
  conn :: "connection option"
  conn_socks :: "(nat \<times> connection \<times> rat) list"
  requests_seen :: int
  bytes_read :: int
  bytes_written :: int
  start_time :: "rat option"
  work_time :: rat
  calls :: "call list"

text \<open>\<open>WorkerThread.__init__\<close> followed by \<open>start\<close>: the thread runs, nothing else is set.\<close>

definition new_worker :: "nat \<Rightarrow> worker" where
  "new_worker i =
     \<lparr>wid = i, phase = Starting, ready = False, conn = None, conn_socks = [],
      requests_seen = 0, bytes_read = 0, bytes_written = 0,
      start_time = None, work_time = 0, calls = []\<rparr>"

definition isAlive :: "worker \<Rightarrow> bool" where
  "isAlive w = (phase w \<noteq> Exited)"

text \<open>The head of \<open>run\<close>: \<open>self.ready = True\<close>, an empty \<open>conn_socks\<close>, and into the loop.\<close>

definition start_run :: "worker \<Rightarrow> worker" where
  "start_run w = w\<lparr>ready := True, phase := Polling, conn_socks := []\<rparr>"

subsubsection \<open>The dictionary of owned connections\<close>

text \<open>
  \<open>d[k] = v\<close> replaces what an existing key holds, where it stands, and appends a new key;
  \<open>d.pop(k)\<close> removes the entry of \<open>k\<close> and raises \<open>KeyError\<close> without one, which the
  callers below test with \<open>dict_has\<close>.
\<close>

fun dict_set :: "('k \<times> 'v) list \<Rightarrow> 'k \<Rightarrow> 'v \<Rightarrow> ('k \<times> 'v) list" where
  "dict_set [] k v = [(k, v)]"
| "dict_set ((k', v') # m) k v =
     (if k' = k then (k, v) # m else (k', v') # dict_set m k v)"

definition dict_has :: "('k \<times> 'v) list \<Rightarrow> 'k \<Rightarrow> bool" where
  "dict_has m k = (k \<in> set (map fst m))"

definition dict_pop :: "('k \<times> 'v) list \<Rightarrow> 'k \<Rightarrow> ('k \<times> 'v) list" where
  "dict_pop m k = filter (\<lambda>e. fst e \<noteq> k) m"

subsubsection \<open>Statistics\<close>

text \<open>The exceptions of Python itself that the code below can meet.\<close>

datatype error = AttributeError | TypeError | KeyError | ZeroDivisionError

text \<open>
  \<open>if_stats\<close> runs the decorated method only when \<open>server.stats['Enabled']\<close> holds.
  \<open>log_close_stats\<close> reads \<open>self.conn\<close> (\<open>AttributeError\<close> on \<open>None\<close>) and subtracts
  \<open>self.start_time\<close> from a float (\<open>TypeError\<close> on \<open>None\<close>).
\<close>

definition log_start_stats :: "env \<Rightarrow> nat \<Rightarrow> worker \<Rightarrow> worker" where
  "log_start_stats e s w =
     (if stats_enabled e then w\<lparr>start_time := Some (clock e (At_start s))\<rparr> else w)"

definition log_close_stats :: "env \<Rightarrow> worker \<Rightarrow> error + worker" where
  "log_close_stats e w =
     (if stats_enabled e then
        (case conn w of
           None \<Rightarrow> Inl AttributeError
         | Some c \<Rightarrow>
            (case start_time w of
               None \<Rightarrow> Inl TypeError
             | Some t0 \<Rightarrow>
                 Inr (w\<lparr>requests_seen := requests_seen w + conn_requests_seen (counts c),
                        bytes_read := bytes_read w + rfile_bytes_read (counts c),
                        bytes_written := bytes_written w + wfile_bytes_written (counts c),
                        work_time := work_time w + (clock e (At_close (socket c)) - t0),
                        start_time := None\<rparr>)))
      else Inr w)"

text \<open>
  The entries of the \<open>stats\<close> dictionary. \<open>self.start_time is None and trueyzero or x\<close> is
  \<open>trueyzero\<close> (which adds like 0) when no timer runs and \<open>x\<close> otherwise; \<open>x\<close> reads
  \<open>self.conn\<close>, so with a timer and no connection Python raises. \<open>now\<close> is the clock at the
  sample.
\<close>

definition stat_requests :: "worker \<Rightarrow> error + int" where
  "stat_requests w =
     (case start_time w of
        None \<Rightarrow> Inr (requests_seen w)
      | Some t0 \<Rightarrow>
         (case conn w of
            None \<Rightarrow> Inl AttributeError
          | Some c \<Rightarrow> Inr (requests_seen w + conn_requests_seen (counts c))))"

definition stat_bytes_read :: "worker \<Rightarrow> error + int" where
  "stat_bytes_read w =
     (case start_time w of
        None \<Rightarrow> Inr (bytes_read w)
      | Some t0 \<Rightarrow>
         (case conn w of
            None \<Rightarrow> Inl AttributeError
          | Some c \<Rightarrow> Inr (bytes_read w + rfile_bytes_read (counts c))))"

definition stat_bytes_written :: "worker \<Rightarrow> error + int" where
  "stat_bytes_written w =
     (case start_time w of
        None \<Rightarrow> Inr (bytes_written w)
      | Some t0 \<Rightarrow>
         (case conn w of
            None \<Rightarrow> Inl AttributeError
          | Some c \<Rightarrow> Inr (bytes_written w + wfile_bytes_written (counts c))))"

definition stat_work_time :: "rat \<Rightarrow> worker \<Rightarrow> rat" where
  "stat_work_time now w =
     (case start_time w of None \<Rightarrow> work_time w | Some t0 \<Rightarrow> work_time w + (now - t0))"

text \<open>
  \<open>x or 1e-6\<close> is the right operand when \<open>x\<close> is zero and \<open>x\<close> otherwise; \<open>/\<close> is true
  division, which raises on a zero divisor.
\<close>

definition epsilon :: rat where
  "epsilon = 1 / 1000000"

definition or_epsilon :: "rat \<Rightarrow> rat" where
  "or_epsilon x = (if x = 0 then epsilon else x)"

definition truediv :: "int \<Rightarrow> rat \<Rightarrow> error + rat" where
  "truediv b x = (if x = 0 then Inl ZeroDivisionError else Inr (of_int b / x))"

definition read_throughput :: "rat \<Rightarrow> worker \<Rightarrow> error + rat" where
  "read_throughput now w =
     (case stat_bytes_read w of
        Inl err \<Rightarrow> Inl err
      | Inr b \<Rightarrow> truediv b (or_epsilon (stat_work_time now w)))"

definition write_throughput :: "rat \<Rightarrow> worker \<Rightarrow> error + rat" where
  "write_throughput now w =
     (case stat_bytes_written w of
        Inl err \<Rightarrow> Inl err
      | Inr b \<Rightarrow> truediv b (or_epsilon (stat_work_time now w)))"

text \<open>The throughput as the specification words it: the bytes over \<open>max(work time, \<epsilon>)\<close>.\<close>

definition spec_throughput :: "int \<Rightarrow> rat \<Rightarrow> rat" where
  "spec_throughput b wt = of_int b / max wt epsilon"

subsubsection \<open>Processing the readable connections\<close>

text \<open>
  One turn of the loop body of \<open>process_conns\<close>, in two steps around the call of
  \<open>communicate\<close>. \<open>begin_process\<close> is \<open>self.conn = conn; self.log_start_stats()\<close> up to the
  call. \<open>end_process\<close> is what follows from how the call ends: the handle's counters are
  what the call left; an \<open>Exception\<close> closes the connection and pops its socket; a normal
  return stores the connection again with a new time; both then run
  \<open>self.log_close_stats(); self.conn = None\<close>. An interrupt skips all of that, leaves
  \<open>process_conns\<close> and the loop of \<open>run\<close>, whose handler records it. Any other exception
  that escapes (a \<open>KeyError\<close> of \<open>pop\<close>, an error of \<open>log_close_stats\<close>) ends the thread.
\<close>

definition begin_process :: "env \<Rightarrow> connection \<Rightarrow> worker \<Rightarrow> worker" where
  "begin_process e c w =
     (log_start_stats e (socket c) (w\<lparr>conn := Some c\<rparr>))\<lparr>phase := In_process\<rparr>"

definition finish_process :: "env \<Rightarrow> worker \<Rightarrow> worker" where
  "finish_process e w =
     (case log_close_stats e w of
        Inl err \<Rightarrow> w\<lparr>phase := Exited\<rparr>
      | Inr w' \<Rightarrow> w'\<lparr>conn := None, phase := Polling\<rparr>)"

definition end_process :: "env \<Rightarrow> worker \<Rightarrow> worker" where
  "end_process e w =
     (case conn w of
        None \<Rightarrow> w
      | Some c \<Rightarrow>
          (let c' = c\<lparr>counts := snd (communicate e c)\<rparr>;
               w1 = w\<lparr>conn := Some c', calls := calls w @ [Communicate (socket c)]\<rparr>
           in case fst (communicate e c) of
                Interrupts \<Rightarrow>
                  w1\<lparr>phase := Exited, calls := calls w1 @ [Record_interrupt]\<rparr>
              | Raises \<Rightarrow>
                  (if dict_has (conn_socks w1) (socket c')
                   then finish_process e
                          (w1\<lparr>calls := calls w1 @ [Close (socket c')],
                              conn_socks := dict_pop (conn_socks w1) (socket c')\<rparr>)
                   else w1\<lparr>calls := calls w1 @ [Close (socket c')], phase := Exited\<rparr>)
              | Returns \<Rightarrow>
                  finish_process e
                    (w1\<lparr>conn_socks :=
                          dict_set (conn_socks w1) (socket c')
                            (c', clock e (At_return (socket c')))\<rparr>)))"

text \<open>\<open>conn, conn_start_time = conn_socks[sock]\<close> and the body for that connection.\<close>

definition process_one :: "env \<Rightarrow> nat \<Rightarrow> worker \<Rightarrow> worker" where
  "process_one e s w =
     (case map_of (conn_socks w) s of
        None \<Rightarrow> w\<lparr>phase := Exited\<rparr>
      | Some (c, conn_start_time) \<Rightarrow> end_process e (begin_process e c w))"

text \<open>\<open>for sock in rlist\<close>: the loop ends early when the thread has ended.\<close>

fun process_all :: "env \<Rightarrow> nat list \<Rightarrow> worker \<Rightarrow> worker" where
  "process_all e [] w = w"
| "process_all e (s # ss) w =
     (let w' = process_one e s w
      in if phase w' = Exited then w' else process_all e ss w')"

text \<open>
  \<open>process_conns\<close>: the sockets with a valid descriptor, of these the ones \<open>select\<close> reports
  readable (in the order given), and the loop over them.
\<close>

definition process_conns :: "env \<Rightarrow> worker \<Rightarrow> worker" where
  "process_conns e w =
     (let socks = filter (\<lambda>sck. fileno e sck > -1) (map fst (conn_socks w));
          rlist = (if socks \<noteq> [] then filter (readable e) socks else [])
      in process_all e rlist w)"

subsubsection \<open>The expiry sweep\<close>

definition conn_expired :: "env \<Rightarrow> rat \<Rightarrow> rat \<Rightarrow> bool" where
  "conn_expired e last_active cur_time = (cur_time - last_active > srv_timeout e)"

text \<open>
  \<open>get_expired_conns\<close> is a generator over \<open>tuple(conn_socks.values())\<close>, a copy taken when
  the first element is asked for, before \<open>close_conns\<close> has removed anything.
\<close>

definition get_expired_conns ::
  "env \<Rightarrow> (nat \<times> connection \<times> rat) list \<Rightarrow> rat \<Rightarrow> connection list" where
  "get_expired_conns e cs cur_time =
     map (\<lambda>(s, c, last_active). c)
       (filter (\<lambda>(s, c, last_active). conn_expired e last_active cur_time) cs)"

text \<open>
  \<open>close_conns\<close> has no handler: when \<open>communicate\<close> raises, \<open>close\<close> and \<open>pop\<close> are not
  reached and the exception leaves \<open>run\<close>, recorded if it is an interrupt.
\<close>

fun close_conns :: "env \<Rightarrow> connection list \<Rightarrow> worker \<Rightarrow> worker" where
  "close_conns e [] w = w"
| "close_conns e (c # cs) w =
     (case fst (communicate e c) of
        Returns \<Rightarrow>
          (let w1 = w\<lparr>calls := calls w @ [Communicate (socket c), Close (socket c)]\<rparr>
           in if dict_has (conn_socks w1) (socket c)
              then close_conns e cs (w1\<lparr>conn_socks := dict_pop (conn_socks w1) (socket c)\<rparr>)
              else w1\<lparr>phase := Exited\<rparr>)
      | Raises \<Rightarrow> w\<lparr>calls := calls w @ [Communicate (socket c)], phase := Exited\<rparr>
      | Interrupts \<Rightarrow>
          w\<lparr>calls := calls w @ [Communicate (socket c), Record_interrupt], phase := Exited\<rparr>)"

definition sweep :: "env \<Rightarrow> worker \<Rightarrow> worker" where
  "sweep e w = close_conns e (get_expired_conns e (conn_socks w) (clock e At_sweep)) w"

subsubsection \<open>The loop of run\<close>

text \<open>
  What \<open>self.server.requests.get(block=True, timeout=0.01)\<close> gave: nothing (\<open>queue.Empty\<close>),
  the shutdown request, or a connection, which is stored under its socket.
\<close>

definition receive :: "env \<Rightarrow> connection option option \<Rightarrow> worker \<Rightarrow> worker" where
  "receive e got w =
     (case got of
        None \<Rightarrow> w
      | Some None \<Rightarrow> w\<lparr>phase := Exited\<rparr>
      | Some (Some c) \<Rightarrow>
          w\<lparr>conn_socks :=
              dict_set (conn_socks w) (socket c) (c, clock e (At_receive (socket c)))\<rparr>)"

definition run_iteration :: "env \<Rightarrow> connection option option \<Rightarrow> worker \<Rightarrow> worker" where
  "run_iteration e got w =
     (let w1 = receive e got w
      in if phase w1 = Exited then w1
         else (let w2 = process_conns e w1
               in if phase w2 = Exited then w2 else sweep e w2))"

text \<open>
  The shape of \<open>conn_socks\<close>: a dictionary has each key once, and \<open>run\<close> stores every
  connection under its own socket.
\<close>

definition owned_ok :: "worker \<Rightarrow> bool" where
  "owned_ok w = (distinct (map fst (conn_socks w))
                 \<and> (\<forall>(s, c, t)\<in>set (conn_socks w). socket c = s))"

text \<open>
  The states a worker thread passes through: it enters the loop, and from the loop it
  receives from the queue, starts on a connection it owns, comes back from \<open>communicate\<close>,
  or sweeps; the environment may differ from step to step.
\<close>

inductive reachable :: "worker \<Rightarrow> bool" where
  spawned: "reachable (new_worker i)"
| started: "reachable w \<Longrightarrow> phase w = Starting \<Longrightarrow> reachable (start_run w)"
| received: "reachable w \<Longrightarrow> phase w = Polling \<Longrightarrow> reachable (receive e got w)"
| begun: "reachable w \<Longrightarrow> phase w = Polling \<Longrightarrow> map_of (conn_socks w) s = Some (c, t)
            \<Longrightarrow> reachable (begin_process e c w)"
| ended: "reachable w \<Longrightarrow> phase w = In_process \<Longrightarrow> reachable (end_process e w)"
| swept: "reachable w \<Longrightarrow> phase w = Polling \<Longrightarrow> reachable (sweep e w)"

subsection \<open>The pool\<close>

text \<open>
  The queue holds connections and shutdown requests; \<open>_SHUTDOWNREQUEST\<close> is Python's
  \<open>None\<close>, so an item is a \<open>connection option\<close>. \<open>spawned\<close> counts the threads created so
  far and names the next one. A \<open>put\<close> without timeout is the item appended: it waits for
  room, which the workers make.
\<close>

record pool =
  pool_min :: int
  pool_max :: int
  threads :: "worker list"
  queue :: "connection option list"
  spawned :: nat

text \<open>The property \<open>idle\<close>: \<open>len([t for t in self._threads if t.conn is None])\<close>.\<close>

definition idle :: "pool \<Rightarrow> nat" where
  "idle p = length (filter (\<lambda>t. conn t = None) (threads p))"

text \<open>
  The two readings of the number that \<open>idle\<close> is said to report: the workers of the list
  that are not inside the processing of a connection, and those of them that are alive.
\<close>

definition not_processing :: "pool \<Rightarrow> nat" where
  "not_processing p = length (filter (\<lambda>w. phase w \<noteq> In_process) (threads p))"

definition alive_not_processing :: "pool \<Rightarrow> nat" where
  "alive_not_processing p =
     length (filter (\<lambda>w. isAlive w \<and> phase w \<noteq> In_process) (threads p))"

subsubsection \<open>grow\<close>

text \<open>
  \<open>budget\<close> is \<open>max(self.max - len(self._threads), 0)\<close>, or \<open>float('inf')\<close> (\<open>None\<close> here)
  when \<open>self.max\<close> is not positive; \<open>n_new = min(amount, budget)\<close>; \<open>range(n_new)\<close> is
  empty for a negative \<open>n_new\<close>.
\<close>

definition budget :: "pool \<Rightarrow> int option" where
  "budget p =
     (if pool_max p > 0 then Some (max (pool_max p - int (length (threads p))) 0) else None)"

definition n_new :: "int \<Rightarrow> pool \<Rightarrow> int" where
  "n_new amount p = (case budget p of Some b \<Rightarrow> min amount b | None \<Rightarrow> amount)"

definition spawn_workers :: "int \<Rightarrow> pool \<Rightarrow> worker list" where
  "spawn_workers amount p = map new_worker [spawned p ..< spawned p + nat (n_new amount p)]"

text \<open>
  \<open>while not all(worker.ready for worker in workers): time.sleep(.1)\<close>. The new threads set
  their flag on their own: \<open>rd k i\<close> tells whether thread \<open>i\<close> shows \<open>ready\<close> when the
  condition is evaluated for the \<open>k\<close>-th time. The loop need not end; its result is the
  number of sleeps.
\<close>

partial_function (option) wait_ready ::
  "(nat \<Rightarrow> nat \<Rightarrow> bool) \<Rightarrow> worker list \<Rightarrow> nat \<Rightarrow> nat option" where
  "wait_ready rd ws k =
     (if list_all (\<lambda>w. rd k (wid w)) ws then Some k else wait_ready rd ws (Suc k))"

text \<open>
  \<open>grow\<close>: the workers are spawned, waited for, and then appended, as threads that have
  entered their loop. The result carries the number of sleeps.
\<close>

definition grow :: "(nat \<Rightarrow> nat \<Rightarrow> bool) \<Rightarrow> int \<Rightarrow> pool \<Rightarrow> (pool \<times> nat) option" where
  "grow rd amount p =
     (let workers = spawn_workers amount p in
      case wait_ready rd workers 0 of
        None \<Rightarrow> None
      | Some k \<Rightarrow>
          Some (p\<lparr>threads := threads p @ map start_run workers,
                  spawned := spawned p + length workers\<rparr>, k))"

definition threads_after_grow ::
  "(nat \<Rightarrow> nat \<Rightarrow> bool) \<Rightarrow> int \<Rightarrow> pool \<Rightarrow> worker list option" where
  "threads_after_grow rd amount p = map_option (threads \<circ> fst) (grow rd amount p)"

subsubsection \<open>shrink\<close>

text \<open>
  The first loop of \<open>shrink\<close>: \<open>for t in self._threads\<close> walks the list by position while
  the body removes from the same list, so the position \<open>i\<close> and the current list are both
  loop state. \<open>list.remove\<close> deletes the first element equal to \<open>t\<close>.
\<close>

function prune :: "nat \<Rightarrow> worker list \<Rightarrow> int \<Rightarrow> worker list \<times> int" where
  "prune i ts amount =
     (if i < length ts then
        (if \<not> isAlive (ts ! i)
         then prune (Suc i) (remove1 (ts ! i) ts) (amount - 1)
         else prune (Suc i) ts amount)
      else (ts, amount))"
  by pat_completeness auto
termination
  by (relation "measure (\<lambda>(i, ts, amount). length ts - i)")
     (auto simp: length_remove1)

declare prune.simps [simp del]

text \<open>
  \<open>shrink\<close>: prune, then \<open>n_extra = max(len(self._threads) - self.min, 0)\<close>,
  \<open>n_to_remove = min(amount, n_extra)\<close>, and one \<open>put(_SHUTDOWNREQUEST)\<close> for each
  element of \<open>range(n_to_remove)\<close>, which is empty for a negative bound.
\<close>

definition n_extra :: "pool \<Rightarrow> worker list \<Rightarrow> int" where
  "n_extra p ts = max (int (length ts) - pool_min p) 0"

definition shrink :: "int \<Rightarrow> pool \<Rightarrow> pool" where
  "shrink amount p =
     (let (ts, amount') = prune 0 (threads p) amount;
          n_to_remove = min amount' (n_extra p ts)
      in p\<lparr>threads := ts, queue := queue p @ replicate (nat n_to_remove) None\<rparr>)"

text \<open>The number of shutdown requests a call of \<open>shrink\<close> has put on the queue.\<close>

definition sentinels_enqueued :: "int \<Rightarrow> pool \<Rightarrow> nat" where
  "sentinels_enqueued amount p = length (queue (shrink amount p)) - length (queue p)"

subsection \<open>Sample workers, pools and environments\<close>

definition dead_worker :: "nat \<Rightarrow> worker" where
  "dead_worker i = (new_worker i)\<lparr>phase := Exited\<rparr>"

definition live_worker :: "nat \<Rightarrow> worker" where
  "live_worker i = start_run (new_worker i)"

definition sample_pool :: "int \<Rightarrow> int \<Rightarrow> worker list \<Rightarrow> pool" where
  "sample_pool lo hi ts =
     \<lparr>pool_min = lo, pool_max = hi, threads = ts, queue = [], spawned = length ts\<rparr>"

text \<open>Every new thread shows \<open>ready\<close> from the \<open>n\<close>-th look on.\<close>

definition ready_from :: "nat \<Rightarrow> nat \<Rightarrow> nat \<Rightarrow> bool" where
  "ready_from n k i = (n \<le> k)"

definition sample_conn :: "nat \<Rightarrow> connection" where
  "sample_conn s =
     \<lparr>socket = s,
      counts = \<lparr>conn_requests_seen = 0, rfile_bytes_read = 0, wfile_bytes_written = 0\<rparr>\<rparr>"

fun sample_clock :: "reading \<Rightarrow> rat" where
  "sample_clock (At_receive s) = 0"
| "sample_clock (At_start s) = 100"
| "sample_clock (At_return s) = 101"
| "sample_clock (At_close s) = 102"
| "sample_clock At_sweep = 200"

definition sample_env :: "outcome \<Rightarrow> env" where
  "sample_env out =
     \<lparr>stats_enabled = True, srv_timeout = 10, fileno = int, readable = (\<lambda>s. True),
      communicate = (\<lambda>c. (out,
         \<lparr>conn_requests_seen = 1, rfile_bytes_read = 20, wfile_bytes_written = 30\<rparr>)),
      clock = sample_clock\<rparr>"

definition owner :: "(nat \<times> connection \<times> rat) list \<Rightarrow> worker" where
  "owner es = (live_worker 0)\<lparr>conn_socks := es\<rparr>"

text \<open>
  A worker whose \<open>communicate\<close> call was left by an interrupt, and a worker that took a
  shutdown request from the queue.
\<close>

definition interrupted_worker :: "nat \<Rightarrow> worker" where
  "interrupted_worker i =
     end_process (sample_env Interrupts)
       (begin_process (sample_env Interrupts) (sample_conn 3)
          (receive (sample_env Interrupts) (Some (Some (sample_conn 3))) (live_worker i)))"

definition stopped_worker :: "nat \<Rightarrow> worker" where
  "stopped_worker i = receive (sample_env Returns) (Some None) (live_worker i)"

text \<open>
  A worker that has processed one connection in half a microsecond, an environment with
  statistics disabled, and a connection with counters above zero.
\<close>

fun quick_clock :: "reading \<Rightarrow> rat" where
  "quick_clock (At_close s) = 1 / 2000000"
| "quick_clock r = 0"

definition quick_env :: env where
  "quick_env = (sample_env Returns)\<lparr>clock := quick_clock\<rparr>"

definition quick_worker :: worker where
  "quick_worker = process_one quick_env 3 (owner [(3, sample_conn 3, 0)])"

definition silent_env :: env where
  "silent_env = (sample_env Returns)\<lparr>stats_enabled := False\<rparr>"

definition busy_conn :: connection where
  "busy_conn =
     \<lparr>socket = 3,
      counts = \<lparr>conn_requests_seen = 2, rfile_bytes_read = 40, wfile_bytes_written = 60\<rparr>\<rparr>"

section \<open>Properties of shrink\<close>

lemma prune_amount:
  "snd (prune i ts amount) = amount - (int (length ts) - int (length (fst (prune i ts amount))))"
proof (induction i ts amount rule: prune.induct)
  case (1 i ts amount)
  show ?case
  proof (cases "i < length ts")
    case False
    then show ?thesis by (simp add: prune.simps)
  next
    case True
    show ?thesis
    proof (cases "isAlive (ts ! i)")
      case True
      with \<open>i < length ts\<close> "1.IH"(2) show ?thesis
        by (subst (1 2) prune.simps) simp
    next
      case False
      have "length (remove1 (ts ! i) ts) = length ts - 1"
        using \<open>i < length ts\<close> by (simp add: length_remove1)
      with False \<open>i < length ts\<close> "1.IH"(1) show ?thesis
        by (subst (1 2) prune.simps) simp
    qed
  qed
qed

lemma prune_length: "length (fst (prune i ts amount)) \<le> length ts"
proof (induction i ts amount rule: prune.induct)
  case (1 i ts amount)
  show ?case
  proof (cases "i < length ts")
    case False
    then show ?thesis by (simp add: prune.simps)
  next
    case True
    show ?thesis
    proof (cases "isAlive (ts ! i)")
      case True
      with \<open>i < length ts\<close> "1.IH"(2) show ?thesis
        by (subst prune.simps) simp
    next
      case False
      have "length (remove1 (ts ! i) ts) \<le> length ts"
        by (simp add: length_remove1)
      with False \<open>i < length ts\<close> "1.IH"(1) show ?thesis
        by (subst prune.simps) simp
    qed
  qed
qed

lemma shrink_threads: "threads (shrink amount p) = fst (prune 0 (threads p) amount)"
  by (simp add: shrink_def Let_def split: prod.splits)


lemma isAlive_samples [simp]: "\<not> isAlive (dead_worker i)" "isAlive (live_worker i)"
  by (simp_all add: isAlive_def dead_worker_def live_worker_def start_run_def)

lemma sample_neq [simp]:
  "dead_worker i \<noteq> live_worker j" "live_worker j \<noteq> dead_worker i"
  "(dead_worker i = dead_worker j) = (i = j)" "(live_worker i = live_worker j) = (i = j)"
  by (auto simp: dead_worker_def live_worker_def new_worker_def start_run_def)

lemma prune_two_dead:
  "prune 0 [dead_worker 10, dead_worker 11] amount = ([dead_worker 11], amount - 1)"
  by (simp add: prune.simps)

lemma prune_dead_live_dead:
  "prune 0 [dead_worker 10, live_worker 11, dead_worker 12] amount = ([live_worker 11], amount - 2)"
  by (simp add: prune.simps)

subsection \<open>Pruning\<close>

text \<open>
  Claim C2. Before any shutdown request is enqueued, \<open>shrink\<close> is to remove every worker of
  the list that has already terminated, each removal lowering the remaining amount by one.
  The loop removes from the list it is walking, so the element that slides into the freed
  position is never looked at: of two terminated workers next to each other the second one
  stays in the list. Here the list holds two terminated workers, one is left and the amount
  drops by one only.
\<close>

theorem shrink_keeps_adjacent_dead_worker:
  "threads (shrink 2 (sample_pool 0 (-1) [dead_worker 10, dead_worker 11])) = [dead_worker 11]
   \<and> \<not> isAlive (dead_worker 11)
   \<and> prune 0 [dead_worker 10, dead_worker 11] 2 = ([dead_worker 11], 1)"
  by (simp add: shrink_threads sample_pool_def prune_two_dead)

subsection \<open>Shutdown requests\<close>

text \<open>
  Claim C10. When pruning has removed at least \<open>amount\<close> workers, the remaining amount is
  zero or negative and \<open>shrink\<close> puts nothing on the queue.
\<close>

theorem shrink_pruned_enough_enqueues_nothing:
  assumes "amount \<le> int (length (threads p)) - int (length (threads (shrink amount p)))"
  shows "queue (shrink amount p) = queue p \<and> sentinels_enqueued amount p = 0"
proof -
  have "snd (prune 0 (threads p) amount) \<le> 0"
    using assms prune_amount [of 0 "threads p" amount] by (simp add: shrink_threads)
  then have n: "nat (min (snd (prune 0 (threads p) amount))
                      (n_extra p (fst (prune 0 (threads p) amount)))) = 0"
    by simp
  have "queue (shrink amount p) =
          queue p @ replicate (nat (min (snd (prune 0 (threads p) amount))
                                        (n_extra p (fst (prune 0 (threads p) amount))))) None"
    by (simp add: shrink_def Let_def split: prod.splits)
  with n show ?thesis
    by (simp add: sentinels_enqueued_def)
qed

theorem shrink_pruned_enough_witness:
  "(1::int) \<le> int (length (threads (sample_pool 0 (-1)
                   [dead_worker 10, live_worker 11, dead_worker 12])))
            - int (length (threads (shrink 1 (sample_pool 0 (-1)
                   [dead_worker 10, live_worker 11, dead_worker 12]))))
   \<and> queue (shrink 1 (sample_pool 0 (-1) [dead_worker 10, live_worker 11, dead_worker 12])) = []
   \<and> threads (shrink 1 (sample_pool 0 (-1) [dead_worker 10, live_worker 11, dead_worker 12]))
       = [live_worker 11]"
proof -
  let ?p = "sample_pool 0 (-1) [dead_worker 10, live_worker 11, dead_worker 12]"
  have ts: "threads (shrink 1 ?p) = [live_worker 11]"
    by (simp add: shrink_threads sample_pool_def prune_dead_live_dead)
  have h: "(1::int) \<le> int (length (threads ?p)) - int (length (threads (shrink 1 ?p)))"
    by (simp add: ts) (simp add: sample_pool_def)
  have "queue (shrink 1 ?p) = queue ?p"
    using shrink_pruned_enough_enqueues_nothing [OF h] by simp
  then have "queue (shrink 1 ?p) = []" by (simp add: sample_pool_def)
  with h ts show ?thesis by simp
qed




section \<open>Properties of grow\<close>

lemma wait_ready_Some:
  "wait_ready rd ws k = Some r \<Longrightarrow>
     k \<le> r \<and> list_all (\<lambda>w. rd r (wid w)) ws
     \<and> (\<forall>j. k \<le> j \<and> j < r \<longrightarrow> \<not> list_all (\<lambda>w. rd j (wid w)) ws)"
proof (induction rule: wait_ready.raw_induct[rotated 1, consumes 1])
  case (1 wr rd ws k r)
  show ?case
  proof (cases "list_all (\<lambda>w. rd k (wid w)) ws")
    case True
    with 1(2) show ?thesis by auto
  next
    case False
    with 1(2) have "wr rd ws (Suc k) = Some r" by simp
    from 1(1)[OF this]
    have a: "Suc k \<le> r" and b: "list_all (\<lambda>w. rd r (wid w)) ws"
      and c: "\<And>j. Suc k \<le> j \<Longrightarrow> j < r \<Longrightarrow> \<not> list_all (\<lambda>w. rd j (wid w)) ws"
      by blast+
    have "\<not> list_all (\<lambda>w. rd j (wid w)) ws" if "k \<le> j" "j < r" for j
    proof (cases "j = k")
      case True
      with False show ?thesis by simp
    next
      case False
      with that have "Suc k \<le> j" by simp
      with c that show ?thesis by blast
    qed
    with a b show ?thesis by auto
  qed
qed

text \<open>The wait ends as soon as all new threads show ready at one look.\<close>

lemma wait_ready_returns:
  "list_all (\<lambda>w. rd (k + d) (wid w)) ws \<Longrightarrow> \<exists>r. wait_ready rd ws k = Some r \<and> r \<le> k + d"
proof (induction d arbitrary: k)
  case 0
  then show ?case by (subst wait_ready.simps) simp
next
  case (Suc d)
  show ?case
  proof (cases "list_all (\<lambda>w. rd k (wid w)) ws")
    case True
    then show ?thesis by (subst wait_ready.simps) simp
  next
    case False
    from Suc.prems have "list_all (\<lambda>w. rd (Suc k + d) (wid w)) ws" by simp
    from Suc.IH[OF this] obtain r where "wait_ready rd ws (Suc k) = Some r" "r \<le> Suc k + d"
      by blast
    with False show ?thesis by (subst wait_ready.simps) simp
  qed
qed

lemma length_spawn_workers: "length (spawn_workers amount p) = nat (n_new amount p)"
  by (simp add: spawn_workers_def)

lemma n_new_bounded:
  "0 < pool_max p \<Longrightarrow>
     n_new amount p = min amount (max (pool_max p - int (length (threads p))) 0)"
  by (simp add: n_new_def budget_def)

lemma n_new_unbounded: "pool_max p \<le> 0 \<Longrightarrow> n_new amount p = amount"
  by (simp add: n_new_def budget_def)

text \<open>
  Claim C4, as stated: with \<open>max > 0\<close> the count after \<open>grow\<close> never exceeds \<open>max\<close>, and with
  \<open>max \<le> 0\<close> exactly \<open>amount\<close> workers are added. A pool of two workers with \<open>max = 1\<close>
  still has two after \<open>grow(1)\<close>, and \<open>grow(-1)\<close> on an unbounded pool adds none.
\<close>

theorem grow_counterexample:
  "map_option length (threads_after_grow (ready_from 0) 1
       (sample_pool 0 1 [live_worker 10, live_worker 11])) = Some 2
   \<and> pool_max (sample_pool 0 1 [live_worker 10, live_worker 11]) = 1
   \<and> map_option length (threads_after_grow (ready_from 0) (-1) (sample_pool 0 (-1) [])) = Some 0
   \<and> pool_max (sample_pool 0 (-1) []) = -1"
  by (simp add: threads_after_grow_def grow_def spawn_workers_def n_new_def budget_def
      sample_pool_def wait_ready.simps)

text \<open>
  Claim C4, amended. When the spawned threads all show ready at some look, \<open>grow\<close> returns.
  With \<open>max > 0\<close> it adds the smaller of \<open>amount\<close> and \<open>max(max - current, 0)\<close> workers, none
  for a negative \<open>amount\<close>, so the count afterwards exceeds \<open>max\<close> only if it did before;
  with \<open>max \<le> 0\<close> it adds \<open>amount\<close> workers, none for a negative \<open>amount\<close>. The new
  workers are appended at the end of the list, all of them ready at the look that ended the
  wait, and at every earlier look one of them was not.
\<close>

theorem grow_spawns_up_to_budget:
  assumes "\<forall>w\<in>set (spawn_workers amount p). rd n (wid w)"
  shows "\<exists>p' k. grow rd amount p = Some (p', k)
     \<and> (0 < pool_max p \<longrightarrow>
          int (length (threads p')) = int (length (threads p))
             + max 0 (min amount (max (pool_max p - int (length (threads p))) 0))
          \<and> int (length (threads p')) \<le> max (pool_max p) (int (length (threads p))))
     \<and> (pool_max p \<le> 0 \<longrightarrow>
          int (length (threads p')) = int (length (threads p)) + max 0 amount)
     \<and> (\<exists>ws. threads p' = threads p @ ws
            \<and> (\<forall>w\<in>set ws. ready w \<and> rd k (wid w))
            \<and> (\<forall>j<k. \<exists>w\<in>set ws. \<not> rd j (wid w)))"
proof -
  let ?ws = "spawn_workers amount p"
  from assms have "list_all (\<lambda>w. rd (0 + n) (wid w)) ?ws"
    by (simp add: list_all_iff)
  from wait_ready_returns [where rd = rd and k = 0 and d = n and ws = ?ws, OF this]
  obtain k where k: "wait_ready rd ?ws 0 = Some k"
    by blast
  let ?p' = "p\<lparr>threads := threads p @ map start_run ?ws, spawned := spawned p + length ?ws\<rparr>"
  have g: "grow rd amount p = Some (?p', k)"
    by (simp add: grow_def Let_def k)
  have len: "int (length (threads ?p')) = int (length (threads p)) + max 0 (n_new amount p)"
    by (simp add: length_spawn_workers)
  have bounded: "int (length (threads ?p')) = int (length (threads p))
             + max 0 (min amount (max (pool_max p - int (length (threads p))) 0))
          \<and> int (length (threads ?p')) \<le> max (pool_max p) (int (length (threads p)))"
    if "0 < pool_max p"
    using len n_new_bounded [OF that, of amount] by auto
  have unbounded: "int (length (threads ?p')) = int (length (threads p)) + max 0 amount"
    if "pool_max p \<le> 0"
    using len n_new_unbounded [OF that, of amount] by simp
  from wait_ready_Some [OF k]
  have r: "list_all (\<lambda>w. rd k (wid w)) ?ws"
    and e: "\<And>j. j < k \<Longrightarrow> \<not> list_all (\<lambda>w. rd j (wid w)) ?ws"
    by auto
  have ws1: "\<forall>w\<in>set (map start_run ?ws). ready w \<and> rd k (wid w)"
    using r by (auto simp: list_all_iff start_run_def)
  have ws2: "\<forall>j<k. \<exists>w\<in>set (map start_run ?ws). \<not> rd j (wid w)"
    using e by (auto simp: list_all_iff start_run_def)
  have "\<exists>ws. threads ?p' = threads p @ ws
            \<and> (\<forall>w\<in>set ws. ready w \<and> rd k (wid w))
            \<and> (\<forall>j<k. \<exists>w\<in>set ws. \<not> rd j (wid w))"
    using ws1 ws2 by (intro exI [of _ "map start_run ?ws"]) simp
  with g bounded unbounded show ?thesis
    by (intro exI [of _ ?p'] exI [of _ k]) blast
qed

lemma spawn_sample: "spawn_workers 5 (sample_pool 0 2 []) = [new_worker 0, new_worker (Suc 0)]"
  by (simp add: spawn_workers_def n_new_def budget_def sample_pool_def upt_conv_Cons)

theorem grow_spawns_up_to_budget_witness:
  "map wid (spawn_workers 5 (sample_pool 0 2 [])) = [0, Suc 0]
   \<and> ready_from 2 2 0 \<and> ready_from 2 2 (Suc 0)
   \<and> threads_after_grow (ready_from 2) 5 (sample_pool 0 2 [])
       = Some [live_worker 0, live_worker (Suc 0)]"
proof -
  have h: "\<forall>w\<in>set (spawn_workers 5 (sample_pool 0 2 [])). ready_from 2 2 (wid w)"
    by (simp add: ready_from_def)
  from grow_spawns_up_to_budget [where rd = "ready_from 2" and n = 2 and amount = 5
      and p = "sample_pool 0 2 []", OF h]
  obtain p' k where g: "grow (ready_from 2) 5 (sample_pool 0 2 []) = Some (p', k)" by blast
  then have "threads p' = [live_worker 0, live_worker (Suc 0)]"
    by (auto simp: grow_def Let_def spawn_sample live_worker_def split: option.splits)
       (simp add: sample_pool_def)
  with g show ?thesis
    by (simp add: threads_after_grow_def spawn_sample new_worker_def ready_from_def)
qed

section \<open>Properties of the worker loop\<close>

subsection \<open>The dictionary of owned connections\<close>




lemma dict_has_map_of: "map_of m k = Some v \<Longrightarrow> dict_has m k"
  by (auto simp: dict_has_def dest: map_of_SomeD intro: rev_image_eqI)

subsection \<open>Processing a connection\<close>

lemma process_one_Returns:
  assumes "map_of (conn_socks w) s = Some (c, t)" "socket c = s"
      and "fst (communicate e c) = Returns"
  shows "process_one e s w =
       (if stats_enabled e then
         w\<lparr>conn_socks := dict_set (conn_socks w) s
                            (c\<lparr>counts := snd (communicate e c)\<rparr>, clock e (At_return s)),
           calls := calls w @ [Communicate s],
           requests_seen := requests_seen w + conn_requests_seen (snd (communicate e c)),
           bytes_read := bytes_read w + rfile_bytes_read (snd (communicate e c)),
           bytes_written := bytes_written w + wfile_bytes_written (snd (communicate e c)),
           work_time := work_time w + (clock e (At_close s) - clock e (At_start s)),
           start_time := None, conn := None, phase := Polling\<rparr>
        else w\<lparr>conn_socks := dict_set (conn_socks w) s
                            (c\<lparr>counts := snd (communicate e c)\<rparr>, clock e (At_return s)),
           calls := calls w @ [Communicate s], conn := None, phase := Polling\<rparr>)"
  using assms
  by (simp add: process_one_def begin_process_def end_process_def finish_process_def
      log_start_stats_def log_close_stats_def Let_def)

lemma process_one_Raises:
  assumes "map_of (conn_socks w) s = Some (c, t)" "socket c = s"
      and "fst (communicate e c) = Raises"
  shows "process_one e s w =
       (if stats_enabled e then
         w\<lparr>conn_socks := dict_pop (conn_socks w) s,
           calls := calls w @ [Communicate s, Close s],
           requests_seen := requests_seen w + conn_requests_seen (snd (communicate e c)),
           bytes_read := bytes_read w + rfile_bytes_read (snd (communicate e c)),
           bytes_written := bytes_written w + wfile_bytes_written (snd (communicate e c)),
           work_time := work_time w + (clock e (At_close s) - clock e (At_start s)),
           start_time := None, conn := None, phase := Polling\<rparr>
        else w\<lparr>conn_socks := dict_pop (conn_socks w) s,
           calls := calls w @ [Communicate s, Close s], conn := None, phase := Polling\<rparr>)"
  using assms dict_has_map_of [OF assms(1)]
  by (simp add: process_one_def begin_process_def end_process_def finish_process_def
      log_start_stats_def log_close_stats_def Let_def)

lemma process_one_Interrupts:
  assumes "map_of (conn_socks w) s = Some (c, t)"
      and "fst (communicate e c) = Interrupts"
  shows "phase (process_one e s w) = Exited"
  using assms
  by (simp add: process_one_def begin_process_def end_process_def log_start_stats_def Let_def)



subsection \<open>The expiry sweep\<close>








section \<open>The idle count\<close>

text \<open>
  The slot \<open>conn\<close> is empty in the loop outside the processing of a connection and filled
  inside it; a thread that has ended keeps what it had.
\<close>

lemma close_conns_conn: "conn (close_conns e cs w) = conn w"
  by (induction cs arbitrary: w) (auto simp: Let_def split: outcome.splits)

lemma close_conns_phase:
  "phase (close_conns e cs w) = phase w \<or> phase (close_conns e cs w) = Exited"
proof (induction cs arbitrary: w)
  case Nil
  then show ?case by simp
next
  case (Cons c cs)
  show ?case
  proof (cases "fst (communicate e c)")
    case Returns
    let ?w1 = "w\<lparr>calls := calls w @ [Communicate (socket c), Close (socket c)],
                 conn_socks := dict_pop (conn_socks w) (socket c)\<rparr>"
    from Cons.IH [of ?w1] Returns show ?thesis
      by (auto simp: Let_def)
  qed simp_all
qed

lemma finish_process_slot:
  "phase (finish_process e w) = Exited
   \<or> (phase (finish_process e w) = Polling \<and> conn (finish_process e w) = None)"
  by (auto simp: finish_process_def split: sum.splits)

lemma end_process_slot:
  assumes "conn w \<noteq> None"
  shows "phase (end_process e w) = Exited
   \<or> (phase (end_process e w) = Polling \<and> conn (end_process e w) = None)"
proof -
  from assms obtain c where c: "conn w = Some c" by auto
  show ?thesis
  proof (cases "fst (communicate e c)")
    case Returns
    with c show ?thesis
      using finish_process_slot by (simp add: end_process_def Let_def)
  next
    case Raises
    with c show ?thesis
      using finish_process_slot by (simp add: end_process_def Let_def)
  next
    case Interrupts
    with c show ?thesis by (simp add: end_process_def Let_def)
  qed
qed

lemma reachable_slot:
  "reachable w \<Longrightarrow>
     (phase w = Starting \<or> phase w = Polling \<longrightarrow> conn w = None)
     \<and> (phase w = In_process \<longrightarrow> conn w \<noteq> None)"
proof (induction rule: reachable.induct)
  case (spawned i)
  show ?case by (simp add: new_worker_def)
next
  case (started w)
  then show ?case by (simp add: start_run_def)
next
  case (received w e got)
  then show ?case by (auto simp: receive_def split: option.splits)
next
  case (begun w s c t e)
  show ?case by (simp add: begin_process_def log_start_stats_def)
next
  case (ended w e)
  then have "conn w \<noteq> None" by simp
  from end_process_slot [OF this, of e] show ?case by auto
next
  case (swept w e)
  with close_conns_phase [of e "get_expired_conns e (conn_socks w) (clock e At_sweep)" w]
  show ?case by (auto simp: sweep_def close_conns_conn)
qed

text \<open>
  Claim C5, amended. In a pool whose workers are in states of the worker loop, \<open>idle\<close> is the
  number of workers of the list that are not inside the processing of a connection, a
  worker that is no longer running being counted only if its current-connection slot is
  empty. The connections a worker owns play no part.
\<close>

theorem idle_counts_empty_slots:
  assumes "\<forall>w\<in>set (threads p). reachable w"
  shows "idle p = length (filter (\<lambda>w. phase w \<noteq> In_process
                                    \<and> (phase w = Exited \<longrightarrow> conn w = None)) (threads p))"
proof -
  have "(conn w = None) = (phase w \<noteq> In_process \<and> (phase w = Exited \<longrightarrow> conn w = None))"
    if "w \<in> set (threads p)" for w
  proof -
    from that assms have "reachable w" by blast
    from reachable_slot [OF this] show ?thesis
      by (cases "phase w") auto
  qed
  then show ?thesis
    unfolding idle_def by (intro arg_cong [where f = length] filter_cong refl)
qed

lemma live_worker_fields [simp]:
  "phase (live_worker i) = Polling" "conn (live_worker i) = None"
  "conn_socks (live_worker i) = []" "calls (live_worker i) = []"
  by (simp_all add: live_worker_def start_run_def new_worker_def)

lemma reachable_live: "reachable (live_worker i)"
  unfolding live_worker_def
  by (rule reachable.started [OF reachable.spawned]) (simp add: new_worker_def)

lemma interrupted_worker_fields:
  "phase (interrupted_worker i) = Exited"
  "conn (interrupted_worker i) =
     Some ((sample_conn 3)\<lparr>counts := snd (communicate (sample_env Interrupts) (sample_conn 3))\<rparr>)"
  by (simp_all add: interrupted_worker_def end_process_def begin_process_def receive_def
      log_start_stats_def sample_env_def Let_def)

lemma stopped_worker_fields:
  "phase (stopped_worker i) = Exited" "conn (stopped_worker i) = None"
  by (simp_all add: stopped_worker_def receive_def)

lemma reachable_interrupted: "reachable (interrupted_worker i)"
proof -
  let ?e = "sample_env Interrupts"
  let ?w1 = "receive ?e (Some (Some (sample_conn 3))) (live_worker i)"
  have r1: "reachable ?w1"
    by (rule reachable.received [OF reachable_live]) simp
  have p1: "phase ?w1 = Polling" by (simp add: receive_def)
  have m1: "map_of (conn_socks ?w1) 3 = Some (sample_conn 3, clock ?e (At_receive 3))"
    by (simp add: receive_def sample_conn_def)
  have r2: "reachable (begin_process ?e (sample_conn 3) ?w1)"
    by (rule reachable.begun [OF r1 p1 m1])
  have p2: "phase (begin_process ?e (sample_conn 3) ?w1) = In_process"
    by (simp add: begin_process_def)
  show ?thesis
    unfolding interrupted_worker_def by (rule reachable.ended [OF r2 p2])
qed

lemma reachable_stopped: "reachable (stopped_worker i)"
  unfolding stopped_worker_def by (rule reachable.received [OF reachable_live]) simp

text \<open>
  Claim C5, as stated: \<open>idle\<close> equals the number of live workers not inside a
  \<open>process\<close> call. The list below holds a worker ended by an interrupt inside
  \<open>communicate\<close>, whose slot still holds the connection, a worker ended by a shutdown
  request, and a polling worker. \<open>idle\<close> is 2; three workers of the list are not
  processing, and one of them is alive.
\<close>

theorem idle_counterexample:
  "reachable (interrupted_worker 10) \<and> reachable (stopped_worker 11) \<and> reachable (live_worker 12)
   \<and> idle (sample_pool 0 (-1) [interrupted_worker 10, stopped_worker 11, live_worker 12]) = 2
   \<and> not_processing
        (sample_pool 0 (-1) [interrupted_worker 10, stopped_worker 11, live_worker 12]) = 3
   \<and> alive_not_processing
        (sample_pool 0 (-1) [interrupted_worker 10, stopped_worker 11, live_worker 12]) = 1"
  by (simp add: reachable_interrupted reachable_stopped reachable_live idle_def
      not_processing_def alive_not_processing_def sample_pool_def isAlive_def
      interrupted_worker_fields stopped_worker_fields)

theorem idle_counts_empty_slots_witness:
  "idle (sample_pool 0 (-1) [interrupted_worker 10, stopped_worker 11, live_worker 12]) = 2
   \<and> phase (interrupted_worker 10) = Exited \<and> conn (interrupted_worker 10) \<noteq> None
   \<and> phase (stopped_worker 11) = Exited \<and> conn (stopped_worker 11) = None
   \<and> phase (live_worker 12) = Polling"
proof -
  let ?p = "sample_pool 0 (-1) [interrupted_worker 10, stopped_worker 11, live_worker 12]"
  have h: "\<forall>w\<in>set (threads ?p). reachable w"
    by (simp add: sample_pool_def reachable_interrupted reachable_stopped reachable_live)
  from idle_counts_empty_slots [OF h]
  have "idle ?p = 2"
    by (simp add: sample_pool_def interrupted_worker_fields stopped_worker_fields)
  then show ?thesis
    by (simp add: interrupted_worker_fields stopped_worker_fields)
qed

section \<open>The statistics of a worker\<close>

lemma or_epsilon_nonzero: "or_epsilon x \<noteq> 0"
  by (simp add: or_epsilon_def epsilon_def)

lemma or_epsilon_max: "x = 0 \<or> epsilon \<le> x \<Longrightarrow> or_epsilon x = max x epsilon"
  by (auto simp: or_epsilon_def epsilon_def max_def)

text \<open>
  Claim C9, amended. The read and write throughput are the byte figure divided by the work
  time, or by \<open>\<epsilon>\<close> when the work time is exactly zero; the divisor is never zero and the
  division never fails. Where the work time is zero or at least \<open>\<epsilon>\<close> this is the byte
  figure over \<open>max(work time, \<epsilon>)\<close>. From the start of the processing of a connection with
  statistics enabled, the request, byte and time figures are the banked totals plus the
  counters of that connection and the time since the start.
\<close>

theorem throughput_divisor:
  "or_epsilon (stat_work_time now w) \<noteq> 0
   \<and> read_throughput now w \<noteq> Inl ZeroDivisionError
   \<and> write_throughput now w \<noteq> Inl ZeroDivisionError
   \<and> (stat_bytes_read w = Inr b \<longrightarrow>
        read_throughput now w =
          Inr (of_int b / (if stat_work_time now w = 0 then epsilon else stat_work_time now w)))
   \<and> (stat_bytes_written w = Inr b \<longrightarrow>
        write_throughput now w =
          Inr (of_int b / (if stat_work_time now w = 0 then epsilon else stat_work_time now w)))
   \<and> (stat_work_time now w = 0 \<or> epsilon \<le> stat_work_time now w \<longrightarrow>
        (stat_bytes_read w = Inr b \<longrightarrow>
           read_throughput now w = Inr (spec_throughput b (stat_work_time now w)))
        \<and> (stat_bytes_written w = Inr b \<longrightarrow>
           write_throughput now w = Inr (spec_throughput b (stat_work_time now w))))
   \<and> (stats_enabled e \<longrightarrow>
        stat_bytes_read (begin_process e c w) = Inr (bytes_read w + rfile_bytes_read (counts c))
        \<and> stat_bytes_written (begin_process e c w)
            = Inr (bytes_written w + wfile_bytes_written (counts c))
        \<and> stat_requests (begin_process e c w)
            = Inr (requests_seen w + conn_requests_seen (counts c))
        \<and> stat_work_time now (begin_process e c w)
            = work_time w + (now - clock e (At_start (socket c))))"
proof -
  have nz: "or_epsilon (stat_work_time now w) \<noteq> 0"
    by (rule or_epsilon_nonzero)
  have r: "read_throughput now w \<noteq> Inl ZeroDivisionError"
    using nz by (auto simp: read_throughput_def truediv_def stat_bytes_read_def
        split: sum.splits option.splits)
  have wr: "write_throughput now w \<noteq> Inl ZeroDivisionError"
    using nz by (auto simp: write_throughput_def truediv_def stat_bytes_written_def
        split: sum.splits option.splits)
  have rv: "read_throughput now w =
          Inr (of_int b / (if stat_work_time now w = 0 then epsilon else stat_work_time now w))"
    if "stat_bytes_read w = Inr b"
    using that nz by (simp add: read_throughput_def truediv_def) (simp add: or_epsilon_def)
  have wv: "write_throughput now w =
          Inr (of_int b / (if stat_work_time now w = 0 then epsilon else stat_work_time now w))"
    if "stat_bytes_written w = Inr b"
    using that nz by (simp add: write_throughput_def truediv_def) (simp add: or_epsilon_def)
  have sp: "(stat_bytes_read w = Inr b \<longrightarrow>
           read_throughput now w = Inr (spec_throughput b (stat_work_time now w)))
        \<and> (stat_bytes_written w = Inr b \<longrightarrow>
           write_throughput now w = Inr (spec_throughput b (stat_work_time now w)))"
    if "stat_work_time now w = 0 \<or> epsilon \<le> stat_work_time now w"
    using or_epsilon_max [OF that] nz
    by (simp add: read_throughput_def write_throughput_def truediv_def spec_throughput_def)
  have mid: "stat_bytes_read (begin_process e c w) = Inr (bytes_read w + rfile_bytes_read (counts c))
        \<and> stat_bytes_written (begin_process e c w)
            = Inr (bytes_written w + wfile_bytes_written (counts c))
        \<and> stat_requests (begin_process e c w)
            = Inr (requests_seen w + conn_requests_seen (counts c))
        \<and> stat_work_time now (begin_process e c w)
            = work_time w + (now - clock e (At_start (socket c)))"
    if "stats_enabled e"
    using that by (simp add: begin_process_def log_start_stats_def stat_bytes_read_def
        stat_bytes_written_def stat_requests_def stat_work_time_def)
  from nz r wr rv wv sp mid show ?thesis by blast
qed

lemma quick_worker_fields:
  "start_time quick_worker = None" "bytes_read quick_worker = 20"
  "work_time quick_worker = 1 / 2000000"
  by (simp_all add: quick_worker_def quick_env_def process_one_def begin_process_def
      end_process_def finish_process_def log_start_stats_def log_close_stats_def
      sample_env_def owner_def sample_conn_def Let_def live_worker_def start_run_def
      new_worker_def)

text \<open>
  Claim C9, as stated: the throughput is the byte counter over \<open>max(work time, \<epsilon>)\<close>, and
  the figures include the counters of the connection being processed. A worker with 20
  bytes read in a work time of half a microsecond reports twice the stated figure, since
  \<open>x or 1e-6\<close> replaces a zero only. With statistics disabled no timer is started and the
  40 bytes of the connection in process are not in the figure.
\<close>

theorem throughput_counterexample:
  "stat_bytes_read quick_worker = Inr 20
   \<and> stat_work_time 5 quick_worker = 1 / 2000000
   \<and> read_throughput 5 quick_worker = Inr 40000000
   \<and> spec_throughput 20 (1 / 2000000) = 20000000
   \<and> rfile_bytes_read (counts busy_conn) = 40
   \<and> phase (begin_process silent_env busy_conn (live_worker 0)) = In_process
   \<and> stat_bytes_read (begin_process silent_env busy_conn (live_worker 0)) = Inr 0"
  by (simp add: stat_bytes_read_def stat_work_time_def read_throughput_def truediv_def
      or_epsilon_def spec_throughput_def epsilon_def quick_worker_fields busy_conn_def
      begin_process_def log_start_stats_def silent_env_def sample_env_def live_worker_def
      start_run_def new_worker_def)

theorem throughput_divisor_witness:
  "stats_enabled (sample_env Returns)
   \<and> stat_bytes_read (begin_process (sample_env Returns) busy_conn (live_worker 0)) = Inr 40
   \<and> stat_work_time 103 (begin_process (sample_env Returns) busy_conn (live_worker 0)) = 3
   \<and> epsilon \<le> 3
   \<and> read_throughput 103 (begin_process (sample_env Returns) busy_conn (live_worker 0))
       = Inr (40 / 3)
   \<and> spec_throughput 40 3 = 40 / 3"
proof -
  let ?e = "sample_env Returns"
  let ?w = "begin_process ?e busy_conn (live_worker 0)"
  have en: "stats_enabled ?e" by (simp add: sample_env_def)
  have f: "bytes_read (live_worker 0) = 0" "work_time (live_worker 0) = 0"
    "rfile_bytes_read (counts busy_conn) = 40" "clock ?e (At_start (socket busy_conn)) = 100"
    by (simp_all add: live_worker_def start_run_def new_worker_def busy_conn_def sample_env_def)
  from throughput_divisor [of 103 "live_worker 0" 0 ?e busy_conn] en
  have b: "stat_bytes_read ?w = Inr 40" and t: "stat_work_time 103 ?w = 3"
    by (simp_all add: f)
  have ep: "epsilon \<le> 3" by (simp add: epsilon_def)
  from t ep have h: "stat_work_time 103 ?w = 0 \<or> epsilon \<le> stat_work_time 103 ?w" by simp
  from throughput_divisor [of 103 ?w 40 ?e busy_conn] h b
  have r: "read_throughput 103 ?w = Inr (spec_throughput 40 (stat_work_time 103 ?w))"
    by blast
  have s: "spec_throughput 40 3 = 40 / 3"
    by (simp add: spec_throughput_def epsilon_def)
  from en b t ep r s show ?thesis by simp
qed

section \<open>The states of the worker loop\<close>

lemma set_dict_set: "set (dict_set m k v) \<subseteq> insert (k, v) (set m)"
  by (induction m k v rule: dict_set.induct) auto

lemma keys_of_dict_set: "fst ` set (dict_set m k v) = insert k (fst ` set m)"
  by (induction m k v rule: dict_set.induct) auto

lemma distinct_dict_set: "distinct (map fst m) \<Longrightarrow> distinct (map fst (dict_set m k v))"
proof (induction m k v rule: dict_set.induct)
  case (1 k v)
  then show ?case by simp
next
  case (2 k' v' m k v)
  then show ?case by (auto simp: keys_of_dict_set)
qed

lemma owned_ok_dict_set:
  assumes "owned_ok w" "socket c = s"
  shows "owned_ok (w\<lparr>conn_socks := dict_set (conn_socks w) s (c, t)\<rparr>)"
  using assms set_dict_set [of "conn_socks w" s "(c, t)"]
  by (auto simp: owned_ok_def distinct_dict_set)

lemma owned_ok_filter:
  assumes "owned_ok w" "conn_socks w' = filter P (conn_socks w)"
  shows "owned_ok w'"
  using assms by (auto simp: owned_ok_def distinct_map_filter)

lemma filter_self: "\<exists>P. xs = filter P xs"
  by (rule exI [of _ "\<lambda>x. True"]) simp

lemma close_conns_filter: "\<exists>P. conn_socks (close_conns e cs w) = filter P (conn_socks w)"
proof (induction cs arbitrary: w)
  case Nil
  show ?case by (simp add: filter_self)
next
  case (Cons c cs)
  show ?case
  proof (cases "fst (communicate e c)")
    case Returns
    show ?thesis
    proof (cases "dict_has (conn_socks w) (socket c)")
      case True
      let ?w1 = "w\<lparr>calls := calls w @ [Communicate (socket c), Close (socket c)],
                   conn_socks := dict_pop (conn_socks w) (socket c)\<rparr>"
      from Cons.IH [of ?w1] obtain P where "conn_socks (close_conns e cs ?w1) = filter P (conn_socks ?w1)"
        by blast
      then have "conn_socks (close_conns e (c # cs) w)
                 = filter (\<lambda>en. fst en \<noteq> socket c \<and> P en) (conn_socks w)"
        using Returns True by (simp add: Let_def dict_pop_def conj_commute)
      then show ?thesis by blast
    next
      case False
      with Returns show ?thesis by (simp add: Let_def filter_self)
    qed
  next
    case Raises
    then show ?thesis by (simp add: filter_self)
  next
    case Interrupts
    then show ?thesis by (simp add: filter_self)
  qed
qed

lemma log_close_stats_owned:
  "log_close_stats e w = Inr w' \<Longrightarrow> conn_socks w' = conn_socks w"
  by (auto simp: log_close_stats_def split: if_splits option.splits)

lemma finish_process_owned: "conn_socks (finish_process e w) = conn_socks w"
  by (auto simp: finish_process_def dest: log_close_stats_owned split: sum.splits)

lemma end_process_owned_ok:
  assumes "owned_ok w"
  shows "owned_ok (end_process e w)"
proof (cases "conn w")
  case None
  with assms show ?thesis by (simp add: end_process_def)
next
  case (Some c)
  let ?c' = "c\<lparr>counts := snd (communicate e c)\<rparr>"
  show ?thesis
  proof (cases "fst (communicate e c)")
    case Returns
    have "owned_ok (w\<lparr>conn_socks := dict_set (conn_socks w) (socket ?c') (?c', clock e (At_return (socket ?c')))\<rparr>)"
      using assms by (rule owned_ok_dict_set) simp
    then show ?thesis
      using Some Returns
      by (simp add: end_process_def Let_def owned_ok_def finish_process_owned)
  next
    case Raises
    have "owned_ok (w\<lparr>conn_socks := dict_pop (conn_socks w) (socket ?c')\<rparr>)"
      using assms by (rule owned_ok_filter) (simp add: dict_pop_def)
    then show ?thesis
      using Some Raises assms
      by (simp add: end_process_def Let_def owned_ok_def finish_process_owned)
  next
    case Interrupts
    with Some assms show ?thesis
      by (simp add: end_process_def Let_def owned_ok_def)
  qed
qed

lemma reachable_owned_ok: "reachable w \<Longrightarrow> owned_ok w"
proof (induction rule: reachable.induct)
  case (spawned i)
  show ?case by (simp add: new_worker_def owned_ok_def)
next
  case (started w)
  then show ?case by (simp add: start_run_def owned_ok_def)
next
  case (received w e got)
  show ?case
  proof (cases got)
    case None
    with received show ?thesis by (simp add: receive_def)
  next
    case (Some item)
    show ?thesis
    proof (cases item)
      case None
      with Some received show ?thesis by (simp add: receive_def owned_ok_def)
    next
      case (Some c)
      with \<open>got = Some item\<close> received.IH show ?thesis
        by (simp add: receive_def owned_ok_dict_set)
    qed
  qed
next
  case (begun w s c t e)
  then show ?case by (simp add: begin_process_def log_start_stats_def owned_ok_def)
next
  case (ended w e)
  then show ?case by (simp add: end_process_owned_ok)
next
  case (swept w e)
  from close_conns_filter obtain P where
    "conn_socks (sweep e w) = filter P (conn_socks w)"
    unfolding sweep_def by blast
  with swept.IH show ?case by (rule owned_ok_filter)
qed

lemma owned_lookup:
  assumes "s \<in> fst ` set (conn_socks w)"
  obtains c t where "map_of (conn_socks w) s = Some (c, t)"
proof -
  from assms have "map_of (conn_socks w) s \<noteq> None"
    by (simp add: map_of_eq_None_iff)
  then show ?thesis using that by (cases "map_of (conn_socks w) s") auto
qed

lemma reachable_process_one:
  assumes "reachable w" "phase w = Polling" "s \<in> fst ` set (conn_socks w)"
  shows "reachable (process_one e s w)"
proof -
  from assms(3) obtain c t where m: "map_of (conn_socks w) s = Some (c, t)"
    by (rule owned_lookup)
  have b: "reachable (begin_process e c w)"
    using assms(1,2) m by (rule reachable.begun)
  have "phase (begin_process e c w) = In_process"
    by (simp add: begin_process_def)
  with b have "reachable (end_process e (begin_process e c w))"
    by (rule reachable.ended)
  with m show ?thesis by (simp add: process_one_def)
qed

lemma process_one_continues:
  assumes "owned_ok w" "s \<in> fst ` set (conn_socks w)" "phase (process_one e s w) \<noteq> Exited"
  shows "phase (process_one e s w) = Polling
       \<and> fst ` set (conn_socks w) - {s} \<subseteq> fst ` set (conn_socks (process_one e s w))"
proof -
  from assms(2) obtain c t where m: "map_of (conn_socks w) s = Some (c, t)"
    by (rule owned_lookup)
  then have "(s, c, t) \<in> set (conn_socks w)" by (rule map_of_SomeD)
  with assms(1) have k: "socket c = s" by (auto simp: owned_ok_def)
  show ?thesis
  proof (cases "fst (communicate e c)")
    case Returns
    show ?thesis
      by (auto simp: process_one_Returns [OF m k Returns] keys_of_dict_set)
  next
    case Raises
    show ?thesis
      by (auto simp: process_one_Raises [OF m k Raises] dict_pop_def)
  next
    case Interrupts
    with m assms(3) show ?thesis by (simp add: process_one_Interrupts)
  qed
qed

lemma reachable_process_all:
  assumes "reachable w" "phase w = Polling" "distinct ss" "set ss \<subseteq> fst ` set (conn_socks w)"
  shows "reachable (process_all e ss w)
       \<and> (phase (process_all e ss w) = Polling \<or> phase (process_all e ss w) = Exited)"
  using assms
proof (induction ss arbitrary: w)
  case Nil
  then show ?case by simp
next
  case (Cons s ss)
  let ?w' = "process_one e s w"
  have s: "s \<in> fst ` set (conn_socks w)" using Cons.prems(4) by simp
  have r: "reachable ?w'"
    using Cons.prems(1,2) s by (rule reachable_process_one)
  show ?case
  proof (cases "phase ?w' = Exited")
    case True
    with r show ?thesis by (simp add: Let_def)
  next
    case False
    from process_one_continues [OF reachable_owned_ok [OF Cons.prems(1)] s False]
    have p: "phase ?w' = Polling"
      and k: "fst ` set (conn_socks w) - {s} \<subseteq> fst ` set (conn_socks ?w')"
      by blast+
    from Cons.prems(3,4) k have "set ss \<subseteq> fst ` set (conn_socks ?w')" by auto
    with Cons.IH [OF r p] Cons.prems(3) False show ?thesis
      by (simp add: Let_def)
  qed
qed

text \<open>Every turn of the loop of \<open>run\<close> leads from a state of the worker loop to another.\<close>

lemma reachable_run_iteration:
  assumes "reachable w" "phase w = Polling"
  shows "reachable (run_iteration e got w)"
proof -
  let ?w1 = "receive e got w"
  have r1: "reachable ?w1" using assms by (rule reachable.received)
  show ?thesis
  proof (cases "phase ?w1 = Exited")
    case True
    with r1 show ?thesis by (simp add: run_iteration_def Let_def)
  next
    case False
    then have p1: "phase ?w1 = Polling"
      using assms(2) by (auto simp: receive_def split: option.splits)
    let ?rlist = "(let socks = filter (\<lambda>sck. fileno e sck > -1) (map fst (conn_socks ?w1))
                   in if socks \<noteq> [] then filter (readable e) socks else [])"
    have d: "distinct ?rlist"
      using reachable_owned_ok [OF r1] by (simp add: owned_ok_def Let_def)
    have k: "set ?rlist \<subseteq> fst ` set (conn_socks ?w1)"
      by (auto simp: Let_def)
    from reachable_process_all [OF r1 p1 d k, of e]
    have r2: "reachable (process_conns e ?w1)"
      and p2: "phase (process_conns e ?w1) = Polling \<or> phase (process_conns e ?w1) = Exited"
      by (simp_all add: process_conns_def Let_def)
    show ?thesis
    proof (cases "phase (process_conns e ?w1) = Exited")
      case True
      with r2 False show ?thesis by (simp add: run_iteration_def Let_def)
    next
      case ne: False
      with p2 have "phase (process_conns e ?w1) = Polling" by simp
      with r2 have "reachable (sweep e (process_conns e ?w1))" by (rule reachable.swept)
      with False ne show ?thesis by (simp add: run_iteration_def Let_def)
    qed
  qed
qed

end
